theory Spec2Isabelle
  imports Main "HOL-Library.AList" "HOL-Library.Sublist"
begin

section \<open>Data model\<close>

text \<open>
  The application keeps two documents on disk, \<^verbatim>\<open>users.yaml\<close> and \<^verbatim>\<open>qa_data.json\<close>, and a
  Streamlit session state. A user record is the dictionary written by \<^verbatim>\<open>register_user\<close>;
  a Q&A entry is the dictionary written by \<^verbatim>\<open>add_qa\<close>. The code reads the creator of an
  entry with \<^verbatim>\<open>item.get("created_by")\<close>, which yields \<^verbatim>\<open>None\<close> for an entry without that key,
  so the field is optional in the model; the other three fields are read with \<^verbatim>\<open>item[...]\<close>.
\<close>

record user_record =
  password :: string
  email :: "string option"
  created_at :: string

record qa_entry =
  question :: string
  answer :: string
  timestamp :: string
  created_by :: "string option"

text \<open>
  The user dictionary is only ever looked up and extended by key, so it is a map. The Q&A
  dictionary is iterated with \<^verbatim>\<open>.items()\<close>, in insertion order, so it is an association
  list; a Python dictionary has each key once, which is the invariant \<open>dict_ok\<close>.
  Assignment \<^verbatim>\<open>d[k] = v\<close> is \<^const>\<open>AList.update\<close>: an existing key keeps its place, a
  new key goes to the end.
\<close>

type_synonym users = "string \<rightharpoonup> user_record"

type_synonym qa_store = "(string \<times> qa_entry list) list"

definition dict_ok :: "('k \<times> 'v) list \<Rightarrow> bool" where
  "dict_ok d = distinct (map fst d)"

datatype py_error = KeyError

section \<open>User store (\<^verbatim>\<open>users.yaml\<close>)\<close>

text \<open>
  The file content is \<open>None\<close> when the file is absent or holds an empty document, for
  which \<^verbatim>\<open>yaml.safe_load(f) or {}\<close> gives the empty dictionary.
\<close>

definition load_users :: "users option \<Rightarrow> users" where
  "load_users user_file = (case user_file of None \<Rightarrow> Map.empty | Some us \<Rightarrow> us)"

definition save_users :: "users \<Rightarrow> users option" where
  "save_users us = Some us"

text \<open>
  \<^verbatim>\<open>hashlib.sha256(password.encode()).hexdigest()\<close>: the digest is the library's, taken as
  the parameter \<open>sha256_hexdigest\<close>.
\<close>

definition hash_password :: "(string \<Rightarrow> string) \<Rightarrow> string \<Rightarrow> string" where
  "hash_password sha256_hexdigest pw = sha256_hexdigest pw"

text \<open>
  \<^verbatim>\<open>register_user\<close> returns its boolean and the file content it leaves behind; \<open>now\<close> is the
  formatted \<^verbatim>\<open>datetime.now()\<close>. The failing branch returns before \<^verbatim>\<open>save_users\<close>.
\<close>

definition register_user ::
  "(string \<Rightarrow> string) \<Rightarrow> string \<Rightarrow> users option \<Rightarrow> string \<Rightarrow> string \<Rightarrow> string option
    \<Rightarrow> bool \<times> users option" where
  "register_user sha256_hexdigest now user_file username pw mail =
     (let us = load_users user_file in
      if us username \<noteq> None then (False, user_file)
      else (True, save_users (us(username \<mapsto>
              \<lparr>password = hash_password sha256_hexdigest pw, email = mail, created_at = now\<rparr>))))"

definition verify_user ::
  "(string \<Rightarrow> string) \<Rightarrow> users option \<Rightarrow> string \<Rightarrow> string \<Rightarrow> bool" where
  "verify_user sha256_hexdigest user_file username pw =
     (let us = load_users user_file in
      case us username of
        Some r \<Rightarrow> password r = hash_password sha256_hexdigest pw
      | None \<Rightarrow> False)"

section \<open>Session state and the Q&A store (\<^verbatim>\<open>qa_data.json\<close>)\<close>

record editing_state =
  ed_subject :: string
  ed_index :: nat
  ed_question :: string
  ed_answer :: string

text \<open>
  \<open>subjects\<close>, \<open>current_user\<close>, \<open>authenticated\<close> and \<open>editing\<close> are the keys of
  \<^verbatim>\<open>st.session_state\<close>; \<open>data_file\<close> is the content of \<^verbatim>\<open>qa_data.json\<close> (\<open>None\<close> when the
  file does not exist), identified with the dictionary that \<^verbatim>\<open>json.dump\<close> wrote.
\<close>

record app_state =
  subjects :: qa_store
  current_user :: "string option"
  authenticated :: bool
  editing :: "editing_state option"
  data_file :: "qa_store option"

definition load_data :: "qa_store option \<Rightarrow> qa_store" where
  "load_data f = (case f of Some d \<Rightarrow> d | None \<Rightarrow> [])"

definition save_data :: "qa_store \<Rightarrow> app_state \<Rightarrow> app_state" where
  "save_data d st = st\<lparr>data_file := Some d\<rparr>"

subsection \<open>The owner filter\<close>

text \<open>
  \<^verbatim>\<open>get_user_data\<close>: the loop over \<^verbatim>\<open>all_data.items()\<close> with the dictionary \<^verbatim>\<open>user_data\<close> as
  accumulator. A subject whose filtered list is empty is not assigned.
\<close>

fun get_user_data_loop :: "string option \<Rightarrow> qa_store \<Rightarrow> qa_store \<Rightarrow> qa_store" where
  "get_user_data_loop u [] user_data = user_data"
| "get_user_data_loop u ((subject, qa_list) # rest) user_data =
     (let user_qa = filter (\<lambda>qa. created_by qa = u) qa_list in
      get_user_data_loop u rest
        (if user_qa \<noteq> [] then AList.update subject user_qa user_data else user_data))"

definition get_user_data :: "app_state \<Rightarrow> qa_store" where
  "get_user_data st = get_user_data_loop (current_user st) (subjects st) []"

subsection \<open>Adding an entry\<close>

text \<open>
  The \<^verbatim>\<open>Save Q&A\<close> button of \<^verbatim>\<open>add_qa\<close>: with an empty field nothing is stored; otherwise
  the subject is created when absent, the new entry is appended and the file is rewritten.
\<close>

definition add_qa_save :: "string \<Rightarrow> string \<Rightarrow> string \<Rightarrow> string \<Rightarrow> app_state \<Rightarrow> app_state" where
  "add_qa_save subject q a now st =
     (if subject = [] \<or> q = [] \<or> a = [] then st
      else
        let old_list = (case map_of (subjects st) subject of None \<Rightarrow> [] | Some qa_list \<Rightarrow> qa_list);
            new_entry = \<lparr>question = q, answer = a, timestamp = now,
                         created_by = current_user st\<rparr>;
            subjects' = AList.update subject (old_list @ [new_entry]) (subjects st)
        in save_data subjects' (st\<lparr>subjects := subjects'\<rparr>))"

subsection \<open>Locating an entry by value\<close>

text \<open>
  Both handlers of \<^verbatim>\<open>view_qa\<close> run \<^verbatim>\<open>for idx, item in enumerate(full_qa_list)\<close> with a body
  guarded by one \<^verbatim>\<open>if\<close> and ended by \<^verbatim>\<open>break\<close>: the body runs at most once, at the first
  index whose item satisfies the condition. \<open>enumerate_find\<close> returns that iteration.
\<close>

definition entry_matches :: "string \<Rightarrow> string \<Rightarrow> string option \<Rightarrow> qa_entry \<Rightarrow> bool" where
  "entry_matches q a u item \<longleftrightarrow> question item = q \<and> answer item = a \<and> created_by item = u"

fun enumerate_find :: "('a \<Rightarrow> bool) \<Rightarrow> nat \<Rightarrow> 'a list \<Rightarrow> (nat \<times> 'a) option" where
  "enumerate_find P idx [] = None"
| "enumerate_find P idx (item # rest) =
     (if P item then Some (idx, item) else enumerate_find P (Suc idx) rest)"

text \<open>\<^verbatim>\<open>del xs[idx]\<close> for an index in range.\<close>

definition list_del :: "'a list \<Rightarrow> nat \<Rightarrow> 'a list" where
  "list_del xs idx = take idx xs @ drop (Suc idx) xs"

subsection \<open>Deleting\<close>

text \<open>
  The \<^verbatim>\<open>Delete\<close> button of the displayed entry \<open>qa\<close> under \<open>selected_subject\<close>.
  \<^verbatim>\<open>st.session_state.subjects[selected_subject]\<close> raises \<^verbatim>\<open>KeyError\<close> for a missing key. On a
  match the list is shortened in place, so the key keeps its position and its (possibly
  empty) list, the file is rewritten and the script reruns.
\<close>

definition view_qa_delete :: "string \<Rightarrow> qa_entry \<Rightarrow> app_state \<Rightarrow> py_error + app_state" where
  "view_qa_delete selected_subject qa st =
     (case map_of (subjects st) selected_subject of
        None \<Rightarrow> Inl KeyError
      | Some full_qa_list \<Rightarrow>
          (case enumerate_find (entry_matches (question qa) (answer qa) (current_user st))
                  0 full_qa_list of
             None \<Rightarrow> Inr st
           | Some (idx, item) \<Rightarrow>
               let subjects' = AList.update selected_subject (list_del full_qa_list idx)
                                 (subjects st)
               in Inr (save_data subjects' (st\<lparr>subjects := subjects'\<rparr>))))"

subsection \<open>Editing\<close>

text \<open>
  The \<^verbatim>\<open>Edit\<close> button of the \<open>i\<close>-th displayed entry \<open>qa\<close> (counted from 1) under
  \<open>selected_subject\<close> remembers the subject, the index and the current texts.
\<close>

definition view_qa_edit :: "string \<Rightarrow> nat \<Rightarrow> qa_entry \<Rightarrow> app_state \<Rightarrow> app_state" where
  "view_qa_edit selected_subject i qa st =
     st\<lparr>editing := Some \<lparr>ed_subject = selected_subject, ed_index = i - 1,
                                ed_question = question qa, ed_answer = answer qa\<rparr>\<rparr>"

text \<open>
  The \<^verbatim>\<open>Save Changes\<close> button of the edit form, which exists only while
  \<^verbatim>\<open>"editing" in st.session_state\<close>. On a match three fields of the item are assigned and the
  file is rewritten; in both cases the \<^verbatim>\<open>editing\<close> key is deleted afterwards.
\<close>

definition view_qa_save_changes ::
  "string \<Rightarrow> string \<Rightarrow> string \<Rightarrow> app_state \<Rightarrow> py_error + app_state" where
  "view_qa_save_changes new_question new_answer now st =
     (case editing st of
        None \<Rightarrow> Inr st
      | Some ed \<Rightarrow>
          (case map_of (subjects st) (ed_subject ed) of
             None \<Rightarrow> Inl KeyError
           | Some full_qa_list \<Rightarrow>
               (case enumerate_find
                       (entry_matches (ed_question ed) (ed_answer ed) (current_user st))
                       0 full_qa_list of
                  None \<Rightarrow> Inr (st\<lparr>editing := None\<rparr>)
                | Some (idx, item) \<Rightarrow>
                    let item' = item\<lparr>question := new_question, answer := new_answer,
                                      timestamp := now\<rparr>;
                        subjects' = AList.update (ed_subject ed) (full_qa_list[idx := item'])
                                      (subjects st)
                    in Inr ((save_data subjects' (st\<lparr>subjects := subjects'\<rparr>))
                              \<lparr>editing := None\<rparr>))))"

section \<open>Search\<close>

text \<open>
  A result row is the dictionary with the keys \<^verbatim>\<open>Subject\<close>, \<^verbatim>\<open>Question\<close>, \<^verbatim>\<open>Answer\<close> and
  \<^verbatim>\<open>Date\<close> that both the search and the CSV export append to a list.
\<close>

record row =
  Subject :: string
  Question :: string
  Answer :: string
  Date :: string

text \<open>
  \<^verbatim>\<open>search_qa\<close>: the two nested loops over \<^verbatim>\<open>user_data.items()\<close> with the list \<^verbatim>\<open>results\<close>
  as accumulator. Python's \<^verbatim>\<open>a in b\<close> on strings is \<^const>\<open>sublist\<close>; \<^verbatim>\<open>str.lower\<close> is the
  language's, taken as the parameter \<open>lower\<close>. With an empty term the body of
  \<^verbatim>\<open>if search_term:\<close> does not run, which is the result \<open>None\<close>.
\<close>

fun search_entries ::
  "(string \<Rightarrow> string) \<Rightarrow> string \<Rightarrow> string \<Rightarrow> qa_entry list \<Rightarrow> row list \<Rightarrow> row list" where
  "search_entries lower search_term subject [] results = results"
| "search_entries lower search_term subject (qa # qa_list) results =
     search_entries lower search_term subject qa_list
       (if sublist (lower search_term) (lower (question qa))
           \<or> sublist (lower search_term) (lower (answer qa))
        then results @ [\<lparr>Subject = subject, Question = question qa, Answer = answer qa,
                          Date = timestamp qa\<rparr>]
        else results)"

fun search_subjects ::
  "(string \<Rightarrow> string) \<Rightarrow> string \<Rightarrow> qa_store \<Rightarrow> row list \<Rightarrow> row list" where
  "search_subjects lower search_term [] results = results"
| "search_subjects lower search_term ((subject, qa_list) # rest) results =
     search_subjects lower search_term rest
       (search_entries lower search_term subject qa_list results)"

definition search_qa :: "(string \<Rightarrow> string) \<Rightarrow> string \<Rightarrow> app_state \<Rightarrow> row list option" where
  "search_qa lower search_term st =
     (if search_term \<noteq> [] then Some (search_subjects lower search_term (get_user_data st) [])
      else None)"

text \<open>Lower-casing of the ASCII letters, to run the search on concrete strings.\<close>

definition ascii_lower :: "string \<Rightarrow> string" where
  "ascii_lower s =
     map (\<lambda>c. case map_of (zip ''ABCDEFGHIJKLMNOPQRSTUVWXYZ'' ''abcdefghijklmnopqrstuvwxyz'') c of
                Some l \<Rightarrow> l | None \<Rightarrow> c) s"

section \<open>Export\<close>




definition NL :: string where
  "NL = [CHR 0x0A]"

subsection \<open>CSV\<close>



subsection \<open>PDF\<close>





subsection \<open>Markdown\<close>



subsection \<open>The \<^verbatim>\<open>Generate Export\<close> button\<close>



subsection \<open>What an export is to contain\<close>

text \<open>
  The contract of the exporter, written per entry: the entries of a selected subject, the
  row of an entry, the block of calls of an entry and of a subject heading in the PDF, and
  the text of an entry and of a subject heading in the Markdown.
\<close>

definition selected_entries :: "qa_store \<Rightarrow> string \<Rightarrow> qa_entry list" where
  "selected_entries user_data subj =
     (case map_of user_data subj of None \<Rightarrow> [] | Some qa_list \<Rightarrow> qa_list)"









section \<open>The JSON export as text\<close>

text \<open>
  The JSON branch of \<^verbatim>\<open>export_qa\<close> is \<^verbatim>\<open>json.dumps(export_data, indent=4)\<close>, and the
  application reads JSON back with \<^verbatim>\<open>json.load\<close>. Both belong to Python's standard
  \<^verbatim>\<open>json\<close> package; this section embeds the part of \<^verbatim>\<open>json/encoder.py\<close>,
  \<^verbatim>\<open>json/decoder.py\<close> and \<^verbatim>\<open>json/scanner.py\<close> (CPython 3.11, the pure Python definitions,
  which the C accelerators duplicate) that values of the store's shape reach.

  A Python value is \<^verbatim>\<open>None\<close>, a boolean, a string, a list or a dictionary (an association
  list, in insertion order). Numbers do not occur in the store and are left out: the
  decoder below fails on them. A character of a \<open>string\<close> stands for a code point below
  256, so the branches of the library for larger code points (surrogate pairs) are
  unreachable in the encoder and are failures in the decoder.
\<close>

datatype py = PyNone | PyBool bool | PyStr string | PyList "py list" | PyDict "(string \<times> py) list"



subsection \<open>\<^verbatim>\<open>json.dumps\<close> with \<^verbatim>\<open>indent=4\<close>\<close>

text \<open>
  \<^verbatim>\<open>py_encode_basestring_ascii\<close> (\<^verbatim>\<open>ensure_ascii\<close> is on by default): every character matched
  by \<^verbatim>\<open>ESCAPE_ASCII = ([\\"]|[^\ -~])\<close> is replaced by its entry in \<^verbatim>\<open>ESCAPE_DCT\<close> or, without
  one, by \<^verbatim>\<open>'\\u{0:04x}'.format(n)\<close>.
\<close>

definition DQ :: char where "DQ = CHR 0x22"
definition BS :: char where "BS = CHR 0x5C"

definition hex_digit :: "nat \<Rightarrow> char" where
  "hex_digit d = ''0123456789abcdef'' ! d"

definition format_04x :: "nat \<Rightarrow> string" where
  "format_04x n = [hex_digit (n div 4096 mod 16), hex_digit (n div 256 mod 16),
                   hex_digit (n div 16 mod 16), hex_digit (n mod 16)]"

definition ESCAPE_DCT :: "char \<Rightarrow> string option" where
  "ESCAPE_DCT c =
     (if c = BS then Some [BS, BS]
      else if c = DQ then Some [BS, DQ]
      else if c = CHR 0x08 then Some [BS, CHR ''b'']
      else if c = CHR 0x0C then Some [BS, CHR ''f'']
      else if c = CHR 0x0A then Some [BS, CHR ''n'']
      else if c = CHR 0x0D then Some [BS, CHR ''r'']
      else if c = CHR 0x09 then Some [BS, CHR ''t'']
      else if (of_char c :: nat) < 0x20 then Some ([BS, CHR ''u''] @ format_04x (of_char c))
      else None)"

definition ESCAPE_ASCII :: "char \<Rightarrow> bool" where
  "ESCAPE_ASCII c \<longleftrightarrow> c = BS \<or> c = DQ \<or> \<not> (0x20 \<le> (of_char c :: nat) \<and> (of_char c :: nat) \<le> 0x7E)"

definition replace :: "char \<Rightarrow> string" where
  "replace c =
     (case ESCAPE_DCT c of
        Some r \<Rightarrow> r
      | None \<Rightarrow>
          let n = (of_char c :: nat) in
          if n < 0x10000 then [BS, CHR ''u''] @ format_04x n
          else
            let n' = n - 0x10000;
                s1 = 0xd800 + (n' div 1024) mod 1024;
                s2 = 0xdc00 + n' mod 1024
            in [BS, CHR ''u''] @ format_04x s1 @ [BS, CHR ''u''] @ format_04x s2)"

definition escape_char :: "char \<Rightarrow> string" where
  "escape_char c = (if ESCAPE_ASCII c then replace c else [c])"

definition py_encode_basestring_ascii :: "string \<Rightarrow> string" where
  "py_encode_basestring_ascii s = [DQ] @ concat (map escape_char s) @ [DQ]"

text \<open>
  \<^verbatim>\<open>_make_iterencode\<close> with \<^verbatim>\<open>_indent = ' ' * 4\<close>, \<^verbatim>\<open>_item_separator = ','\<close> and
  \<^verbatim>\<open>_key_separator = ': '\<close>: an empty list or dictionary is \<^verbatim>\<open>[]\<close> or \<^verbatim>\<open>{}\<close>; otherwise the
  items follow the opening bracket on lines of their own, one level deeper, separated by
  a comma and a line break, and the closing bracket is on a line of its own. The loop with
  its \<^verbatim>\<open>first\<close> flag is \<open>join\<close>.
\<close>

fun join :: "string \<Rightarrow> string list \<Rightarrow> string" where
  "join sep [] = []"
| "join sep [x] = x"
| "join sep (x # y # ys) = x @ sep @ join sep (y # ys)"

definition newline_indent :: "nat \<Rightarrow> string" where
  "newline_indent level = NL @ replicate (4 * level) CHR '' ''"

fun iterencode :: "nat \<Rightarrow> py \<Rightarrow> string" where
  "iterencode level PyNone = ''null''"
| "iterencode level (PyBool b) = (if b then ''true'' else ''false'')"
| "iterencode level (PyStr s) = py_encode_basestring_ascii s"
| "iterencode level (PyList lst) =
     (if lst = [] then ''[]''
      else ''['' @ newline_indent (Suc level)
           @ join ('','' @ newline_indent (Suc level)) (map (iterencode (Suc level)) lst)
           @ newline_indent level @ '']'')"
| "iterencode level (PyDict dct) =
     (if dct = [] then ''{}''
      else ''{'' @ newline_indent (Suc level)
           @ join ('','' @ newline_indent (Suc level))
               (map (\<lambda>kv. py_encode_basestring_ascii (fst kv) @ '': ''
                            @ iterencode (Suc level) (snd kv)) dct)
           @ newline_indent level @ ''}'')"

definition json_dumps :: "py \<Rightarrow> string" where
  "json_dumps obj = iterencode 0 obj"


subsection \<open>\<^verbatim>\<open>json.loads\<close>\<close>

text \<open>
  The decoder works on the rest of the input instead of an index into it. \<open>skip_ws\<close> is
  \<^verbatim>\<open>WHITESPACE.match(s, end).end()\<close>; the tests of one or two characters that the library
  makes before calling it are fast paths of the same skip.
\<close>

definition WHITESPACE_STR :: string where
  "WHITESPACE_STR = [CHR 0x20, CHR 0x09, CHR 0x0A, CHR 0x0D]"

definition skip_ws :: "string \<Rightarrow> string" where
  "skip_ws s = dropWhile (\<lambda>c. c \<in> set WHITESPACE_STR) s"

text \<open>
  \<^verbatim>\<open>py_scanstring\<close> in strict mode, called after the opening quote: it returns the decoded
  string and the input after the closing quote. \<^verbatim>\<open>_decode_uXXXX\<close> reads four hexadecimal
  digits (the library's \<^verbatim>\<open>int(esc, 16)\<close> also accepts a few other spellings, which are
  failures here).
\<close>

definition BACKSLASH :: "char \<Rightarrow> char option" where
  "BACKSLASH esc =
     map_of [(DQ, DQ), (BS, BS), (CHR ''/'', CHR ''/''), (CHR ''b'', CHR 0x08),
             (CHR ''f'', CHR 0x0C), (CHR ''n'', CHR 0x0A), (CHR ''r'', CHR 0x0D),
             (CHR ''t'', CHR 0x09)] esc"

definition hex_val :: "char \<Rightarrow> nat option" where
  "hex_val c =
     (let n = (of_char c :: nat) in
      if 48 \<le> n \<and> n \<le> 57 then Some (n - 48)
      else if 97 \<le> n \<and> n \<le> 102 then Some (n - 87)
      else if 65 \<le> n \<and> n \<le> 70 then Some (n - 55)
      else None)"

definition decode_uXXXX :: "string \<Rightarrow> nat option" where
  "decode_uXXXX esc =
     (case map hex_val esc of
        [Some a, Some b, Some c, Some d] \<Rightarrow> Some (4096 * a + 256 * b + 16 * c + d)
      | _ \<Rightarrow> None)"

fun py_scanstring :: "string \<Rightarrow> (string \<times> string) option" where
  "py_scanstring [] = None"
| "py_scanstring (c # s) =
     (if c = DQ then Some ([], s)
      else if c = BS then
        (case s of
           [] \<Rightarrow> None
         | esc # s1 \<Rightarrow>
             if esc \<noteq> CHR ''u'' then
               (case BACKSLASH esc of
                  None \<Rightarrow> None
                | Some ch \<Rightarrow>
                    (case py_scanstring s1 of
                       None \<Rightarrow> None
                     | Some (str, r) \<Rightarrow> Some (ch # str, r)))
             else
               (case decode_uXXXX (take 4 s1) of
                  None \<Rightarrow> None
                | Some uni \<Rightarrow>
                    if uni < 256 then
                      (case py_scanstring (drop 4 s1) of
                         None \<Rightarrow> None
                       | Some (str, r) \<Rightarrow> Some (char_of uni # str, r))
                    else None))
      else if (of_char c :: nat) < 0x20 then None
      else
        (case py_scanstring s of
           None \<Rightarrow> None
         | Some (str, r) \<Rightarrow> Some (c # str, r)))"

text \<open>
  \<^verbatim>\<open>dict(pairs)\<close> at the end of \<^verbatim>\<open>JSONObject\<close>: a repeated key keeps its first place and its
  last value.
\<close>

definition dict_of_pairs :: "(string \<times> py) list \<Rightarrow> (string \<times> py) list" where
  "dict_of_pairs pairs = fold (\<lambda>(k, v) d. AList.update k v d) pairs []"

text \<open>
  \<^verbatim>\<open>_scan_once\<close>, \<^verbatim>\<open>JSONObject\<close> and \<^verbatim>\<open>JSONArray\<close> call each other; the first argument bounds
  the number of nested calls, as Python's recursion limit does, and running out of it is a
  failure like any other. The loops are entered after the opening quote of the first key
  and at the first element. \<^verbatim>\<open>JSONDecoder.decode\<close> skips white space around the value and
  rejects extra data.
\<close>

fun scan_once :: "nat \<Rightarrow> string \<Rightarrow> (py \<times> string) option"
  and JSONObject_loop :: "nat \<Rightarrow> string \<Rightarrow> (string \<times> py) list \<Rightarrow> (py \<times> string) option"
  and JSONArray_loop :: "nat \<Rightarrow> string \<Rightarrow> py list \<Rightarrow> (py \<times> string) option" where
  "scan_once 0 s = None"
| "scan_once (Suc n) [] = None"
| "scan_once (Suc n) (nextchar # rest) =
     (if nextchar = DQ then
        (case py_scanstring rest of
           None \<Rightarrow> None
         | Some (str, r) \<Rightarrow> Some (PyStr str, r))
      else if nextchar = CHR ''{'' then
        (case skip_ws rest of
           [] \<Rightarrow> None
         | c # r \<Rightarrow>
             if c = CHR ''}'' then Some (PyDict [], r)
             else if c \<noteq> DQ then None
             else JSONObject_loop n r [])
      else if nextchar = CHR ''['' then
        (case skip_ws rest of
           [] \<Rightarrow> None
         | c # r \<Rightarrow>
             if c = CHR '']'' then Some (PyList [], r)
             else JSONArray_loop n (c # r) [])
      else if nextchar = CHR ''n'' \<and> take 4 (nextchar # rest) = ''null'' then
        Some (PyNone, drop 3 rest)
      else if nextchar = CHR ''t'' \<and> take 4 (nextchar # rest) = ''true'' then
        Some (PyBool True, drop 3 rest)
      else if nextchar = CHR ''f'' \<and> take 5 (nextchar # rest) = ''false'' then
        Some (PyBool False, drop 4 rest)
      else None)"
| "JSONObject_loop 0 s pairs = None"
| "JSONObject_loop (Suc n) s pairs =
     (case py_scanstring s of
        None \<Rightarrow> None
      | Some (key, s1) \<Rightarrow>
          (case skip_ws s1 of
             [] \<Rightarrow> None
           | c # s2 \<Rightarrow>
               if c \<noteq> CHR '':'' then None
               else
                 (case scan_once n (skip_ws s2) of
                    None \<Rightarrow> None
                  | Some (v, s3) \<Rightarrow>
                      (case skip_ws s3 of
                         [] \<Rightarrow> None
                       | nextchar # s4 \<Rightarrow>
                           if nextchar = CHR ''}'' then
                             Some (PyDict (dict_of_pairs (pairs @ [(key, v)])), s4)
                           else if nextchar \<noteq> CHR '','' then None
                           else
                             (case skip_ws s4 of
                                [] \<Rightarrow> None
                              | q # s5 \<Rightarrow>
                                  if q \<noteq> DQ then None
                                  else JSONObject_loop n s5 (pairs @ [(key, v)]))))))"
| "JSONArray_loop 0 s vals = None"
| "JSONArray_loop (Suc n) s vals =
     (case scan_once n s of
        None \<Rightarrow> None
      | Some (v, s1) \<Rightarrow>
          (case skip_ws s1 of
             [] \<Rightarrow> None
           | nextchar # s2 \<Rightarrow>
               if nextchar = CHR '']'' then Some (PyList (vals @ [v]), s2)
               else if nextchar \<noteq> CHR '','' then None
               else JSONArray_loop n (skip_ws s2) (vals @ [v])))"

definition json_loads :: "nat \<Rightarrow> string \<Rightarrow> py option" where
  "json_loads fuel s =
     (case scan_once fuel (skip_ws s) of
        None \<Rightarrow> None
      | Some (obj, r) \<Rightarrow> if skip_ws r = [] then Some obj else None)"

subsection \<open>Values that are dictionaries throughout, and the fuel they need\<close>




definition dict_item_body :: "nat \<Rightarrow> string \<times> py \<Rightarrow> string" where
  "dict_item_body level kv =
     concat (map escape_char (fst kv)) @ [DQ] @ '': '' @ iterencode (Suc level) (snd kv)"


section \<open>A concrete store\<close>

text \<open>
  Two users share the subject \<^verbatim>\<open>Python\<close>, with the same question and answer; alice has
  saved that entry twice, at different times, and has one entry under \<^verbatim>\<open>Math\<close>.
\<close>

definition bob_closure :: qa_entry where
  "bob_closure = \<lparr>question = ''What is a closure?'', answer = ''A function with its environment'',
     timestamp = ''2024-01-01 09:00:00'', created_by = Some ''bob''\<rparr>"

definition closure1 :: qa_entry where
  "closure1 = \<lparr>question = ''What is a closure?'', answer = ''A function with its environment'',
     timestamp = ''2024-01-02 09:00:00'', created_by = Some ''alice''\<rparr>"

definition recursion1 :: qa_entry where
  "recursion1 = \<lparr>question = ''What is recursion?'', answer = ''A function calling itself'',
     timestamp = ''2024-01-03 09:00:00'', created_by = Some ''alice''\<rparr>"

definition closure2 :: qa_entry where
  "closure2 = \<lparr>question = ''What is a closure?'', answer = ''A function with its environment'',
     timestamp = ''2024-01-04 09:00:00'', created_by = Some ''alice''\<rparr>"

definition limit1 :: qa_entry where
  "limit1 = \<lparr>question = ''What is a limit?'', answer = ''The value a sequence approaches'',
     timestamp = ''2024-01-05 09:00:00'', created_by = Some ''alice''\<rparr>"

definition example_store :: qa_store where
  "example_store =
     [(''Python'', [bob_closure, closure1, recursion1, closure2]), (''Math'', [limit1])]"

definition alice_session :: app_state where
  "alice_session = \<lparr>subjects = example_store, current_user = Some ''alice'',
     authenticated = True, editing = None, data_file = Some example_store\<rparr>"

definition alice_editing :: app_state where
  "alice_editing = alice_session\<lparr>editing := Some \<lparr>ed_subject = ''Python'', ed_index = 2,
     ed_question = ''What is a closure?'', ed_answer = ''A function with its environment''\<rparr>\<rparr>"

definition alice_stale :: app_state where
  "alice_stale = alice_session\<lparr>editing := Some \<lparr>ed_subject = ''Math'', ed_index = 0,
     ed_question = ''What is a monad?'', ed_answer = ''A monoid of endofunctors''\<rparr>\<rparr>"

definition example_users :: "users option" where
  "example_users = Some [''alice'' \<mapsto> \<lparr>password = ''terces'', email = None,
     created_at = ''2024-01-01 08:00:00''\<rparr>]"

section \<open>Verification\<close>

lemmas example_defs = alice_session_def alice_editing_def example_store_def bob_closure_def
  closure1_def recursion1_def closure2_def limit1_def

subsection \<open>User store\<close>

text \<open>
  C2. \<^verbatim>\<open>verify_user\<close> is true exactly when the username is a key of the user store and the
  stored password hash equals the hash of the supplied password. It is false for an unknown
  username and for a password whose hash differs, whatever the store holds.
\<close>

theorem verify_user_iff:
  "verify_user H user_file username pw =
     (\<exists>r. load_users user_file username = Some r \<and> password r = hash_password H pw)"
  by (simp add: verify_user_def split: option.split)

theorem verify_user_iff_witness:
  "verify_user rev example_users ''alice'' ''secret''
   \<and> \<not> verify_user rev example_users ''alice'' ''secreT''
   \<and> \<not> verify_user rev example_users ''bob'' ''secret''
   \<and> \<not> verify_user rev None ''alice'' ''secret''"
  unfolding verify_user_iff by (simp add: load_users_def hash_password_def example_users_def)

text \<open>
  C3. When the username is already a key of the user store, \<^verbatim>\<open>register_user\<close> returns
  false and the file keeps the content it had, so the existing record (password hash,
  email, creation time) is untouched. When the username is absent it returns true and the
  file holds the old dictionary extended by a record with the hash of the password, the
  email and the creation timestamp.
\<close>

theorem register_user_spec:
  "(load_users user_file username \<noteq> None \<longrightarrow>
      register_user H now user_file username pw mail = (False, user_file))
   \<and> (load_users user_file username = None \<longrightarrow>
      register_user H now user_file username pw mail =
        (True, Some ((load_users user_file)(username \<mapsto>
                 \<lparr>password = hash_password H pw, email = mail, created_at = now\<rparr>))))"
  by (simp add: register_user_def save_users_def)

theorem register_user_spec_witness:
  "register_user rev ''2024-02-02 12:00:00'' example_users ''alice'' ''hunter2'' (Some ''a@x.org'')
     = (False, example_users)
   \<and> register_user rev ''2024-02-02 12:00:00'' None ''bob'' ''hunter2'' (Some ''b@x.org'')
     = (True, Some [''bob'' \<mapsto> \<lparr>password = ''2retnuh'', email = Some ''b@x.org'',
                      created_at = ''2024-02-02 12:00:00''\<rparr>])"
proof -
  have present: "load_users example_users ''alice'' \<noteq> None"
    by (simp add: load_users_def example_users_def)
  have absent: "load_users None ''bob'' = None"
    by (simp add: load_users_def)
  from register_user_spec[of example_users "''alice''" rev "''2024-02-02 12:00:00''" "''hunter2''"
      "Some ''a@x.org''"] present
  have a: "register_user rev ''2024-02-02 12:00:00'' example_users ''alice'' ''hunter2''
      (Some ''a@x.org'') = (False, example_users)" by blast
  from register_user_spec[of None "''bob''" rev "''2024-02-02 12:00:00''" "''hunter2''"
      "Some ''b@x.org''"] absent
  have "register_user rev ''2024-02-02 12:00:00'' None ''bob'' ''hunter2'' (Some ''b@x.org'')
     = (True, Some ((load_users None)(''bob'' \<mapsto> \<lparr>password = hash_password rev ''hunter2'',
           email = Some ''b@x.org'', created_at = ''2024-02-02 12:00:00''\<rparr>)))" by blast
  then have b: "register_user rev ''2024-02-02 12:00:00'' None ''bob'' ''hunter2'' (Some ''b@x.org'')
     = (True, Some [''bob'' \<mapsto> \<lparr>password = ''2retnuh'', email = Some ''b@x.org'',
                      created_at = ''2024-02-02 12:00:00''\<rparr>])"
    by (simp add: load_users_def hash_password_def)
  from a b show ?thesis by simp
qed

subsection \<open>The owner filter\<close>

text \<open>
  Assigning a key that the dictionary does not have appends it; the loop of
  \<^verbatim>\<open>get_user_data\<close> therefore builds the filtered store, without the subjects whose
  filtered list is empty.
\<close>

lemma update_fresh: "k \<notin> fst ` set al \<Longrightarrow> AList.update k v al = al @ [(k, v)]"
  by (induction al) auto

lemma get_user_data_loop_append:
  "distinct (map fst acc @ map fst store) \<Longrightarrow>
   get_user_data_loop u store acc =
     acc @ filter (\<lambda>(s, qs). qs \<noteq> []) (map (\<lambda>(s, qs). (s, filter (\<lambda>qa. created_by qa = u) qs)) store)"
proof (induction store arbitrary: acc)
  case Nil
  then show ?case by simp
next
  case (Cons p store)
  obtain s qs where p: "p = (s, qs)" by (cases p)
  show ?case
  proof (cases "filter (\<lambda>qa. created_by qa = u) qs = []")
    case True
    with Cons p show ?thesis by simp
  next
    case False
    from Cons.prems p have fresh: "s \<notin> fst ` set acc" by auto
    from Cons.prems p have "distinct (map fst (acc @ [(s, filter (\<lambda>qa. created_by qa = u) qs)]) @ map fst store)"
      by auto
    from Cons.IH[OF this] False p fresh show ?thesis
      by (simp add: update_fresh)
  qed
qed


lemma get_user_data_eq:
  "dict_ok (subjects st) \<Longrightarrow>
   get_user_data st =
     filter (\<lambda>(s, qs). qs \<noteq> [])
       (map (\<lambda>(s, qs). (s, filter (\<lambda>qa. created_by qa = current_user st) qs)) (subjects st))"
  using get_user_data_loop_append[of "[]" "subjects st" "current_user st"]
  by (simp add: get_user_data_def dict_ok_def)

lemma map_of_filtered:
  "distinct (map fst store) \<Longrightarrow>
   map_of (filter (\<lambda>(s, qs). qs \<noteq> []) (map (\<lambda>(s, qs). (s, f qs)) store)) k =
     (case map_of store k of None \<Rightarrow> None
      | Some qs \<Rightarrow> if f qs = [] then None else Some (f qs))"
proof (induction store)
  case Nil
  then show ?case by simp
next
  case (Cons p store)
  obtain s qs where p: "p = (s, qs)" by (cases p)
  from Cons.prems p have "map_of store s = None"
    by (simp add: map_of_eq_None_iff)
  with Cons p show ?case
    by (auto split: option.splits)
qed

text \<open>
  C1. For a logged-in user \<open>u\<close> and any store (a dictionary, so with each subject once),
  \<^verbatim>\<open>get_user_data\<close>, which the listing, the search and the export all start from, is the
  store with every list filtered to the entries whose \<^verbatim>\<open>created_by\<close> is \<open>u\<close>, in the
  original order, and with the subjects left empty dropped. Hence an entry is shown under a
  subject exactly when it is stored under that subject and was created by \<open>u\<close>: entries of
  other users never appear, even under a shared subject name, and every own entry appears.
\<close>

theorem get_user_data_exact:
  assumes "dict_ok (subjects st)" and "current_user st = Some u"
  shows "get_user_data st =
           filter (\<lambda>(s, qs). qs \<noteq> [])
             (map (\<lambda>(s, qs). (s, filter (\<lambda>qa. created_by qa = Some u) qs)) (subjects st))
       \<and> map_of (get_user_data st) subject =
           (case map_of (subjects st) subject of
              None \<Rightarrow> None
            | Some qa_list \<Rightarrow>
                if filter (\<lambda>qa. created_by qa = Some u) qa_list = [] then None
                else Some (filter (\<lambda>qa. created_by qa = Some u) qa_list))
       \<and> ((\<exists>shown. map_of (get_user_data st) subject = Some shown \<and> qa \<in> set shown) \<longleftrightarrow>
            (\<exists>qa_list. map_of (subjects st) subject = Some qa_list \<and> qa \<in> set qa_list
                \<and> created_by qa = Some u))"
proof -
  let ?own = "\<lambda>qa. created_by qa = Some u"
  have eq: "get_user_data st =
      filter (\<lambda>(s, qs). qs \<noteq> []) (map (\<lambda>(s, qs). (s, filter ?own qs)) (subjects st))"
    using get_user_data_eq[OF assms(1)] assms(2) by simp
  have look: "map_of (get_user_data st) subject =
      (case map_of (subjects st) subject of None \<Rightarrow> None
       | Some qa_list \<Rightarrow> if filter ?own qa_list = [] then None else Some (filter ?own qa_list))"
    unfolding eq using assms(1) by (simp add: map_of_filtered dict_ok_def)
  have mem: "(\<exists>shown. map_of (get_user_data st) subject = Some shown \<and> qa \<in> set shown) \<longleftrightarrow>
      (\<exists>qa_list. map_of (subjects st) subject = Some qa_list \<and> qa \<in> set qa_list \<and> ?own qa)"
  proof (cases "map_of (subjects st) subject")
    case None
    then show ?thesis by (simp add: look)
  next
    case (Some qa_list)
    show ?thesis
    proof (cases "filter ?own qa_list = []")
      case True
      then have "\<forall>x\<in>set qa_list. \<not> ?own x" by (simp add: filter_empty_conv)
      with Some True show ?thesis by (auto simp: look)
    next
      case False
      with Some show ?thesis by (auto simp: look)
    qed
  qed
  from eq look mem show ?thesis by blast
qed

theorem get_user_data_exact_witness:
  "dict_ok (subjects alice_session) \<and> current_user alice_session = Some ''alice''
   \<and> get_user_data alice_session =
        [(''Python'', [closure1, recursion1, closure2]), (''Math'', [limit1])]
   \<and> map_of (get_user_data alice_session) ''Python'' = Some [closure1, recursion1, closure2]
   \<and> \<not> (\<exists>shown. map_of (get_user_data alice_session) ''Python'' = Some shown
              \<and> bob_closure \<in> set shown)"
proof -
  have ok: "dict_ok (subjects alice_session)"
    by (simp add: dict_ok_def alice_session_def example_store_def)
  have user: "current_user alice_session = Some ''alice''"
    by (simp add: alice_session_def)
  note fact = get_user_data_exact[OF ok user, of "''Python''" bob_closure]
  from fact have "get_user_data alice_session =
      filter (\<lambda>(s, qs). qs \<noteq> [])
        (map (\<lambda>(s, qs). (s, filter (\<lambda>qa. created_by qa = Some ''alice'') qs))
           (subjects alice_session))"
    by blast
  then have all: "get_user_data alice_session =
      [(''Python'', [closure1, recursion1, closure2]), (''Math'', [limit1])]"
    by (simp add: alice_session_def example_store_def bob_closure_def closure1_def
        recursion1_def closure2_def limit1_def)
  from fact have "(\<exists>shown. map_of (get_user_data alice_session) ''Python'' = Some shown
        \<and> bob_closure \<in> set shown) \<longleftrightarrow>
      (\<exists>qa_list. map_of (subjects alice_session) ''Python'' = Some qa_list
        \<and> bob_closure \<in> set qa_list \<and> created_by bob_closure = Some ''alice'')"
    by blast
  then have hidden: "\<not> (\<exists>shown. map_of (get_user_data alice_session) ''Python'' = Some shown
        \<and> bob_closure \<in> set shown)"
    by (simp add: bob_closure_def)
  from ok user all hidden show ?thesis by simp
qed

subsection \<open>The store stays a dictionary\<close>

lemma dict_ok_load_data_None: "dict_ok (load_data None)"
  by (simp add: load_data_def dict_ok_def)

lemma dict_ok_update: "dict_ok d \<Longrightarrow> dict_ok (AList.update k v d)"
  by (simp add: dict_ok_def distinct_update)

lemma add_qa_save_dict_ok: "dict_ok (subjects st) \<Longrightarrow> dict_ok (subjects (add_qa_save s q a now st))"
  by (simp add: add_qa_save_def save_data_def Let_def dict_ok_update)

lemma update_keys_present:
  "map_of al k = Some v \<Longrightarrow> map fst (AList.update k v' al) = map fst al"
  by (simp add: update_keys) (metis domI dom_map_of_conv_image_fst image_set)

subsection \<open>The first matching entry\<close>

lemma enumerate_find_None: "enumerate_find P k xs = None \<longleftrightarrow> (\<forall>x\<in>set xs. \<not> P x)"
  by (induction xs arbitrary: k) auto

lemma enumerate_find_Some:
  "enumerate_find P k xs = Some (idx, item) \<longleftrightarrow>
     (\<exists>pre post. xs = pre @ item # post \<and> (\<forall>x\<in>set pre. \<not> P x) \<and> P item \<and> idx = k + length pre)"
proof (induction xs arbitrary: k)
  case Nil
  then show ?case by simp
next
  case (Cons x xs)
  show ?case
  proof (cases "P x")
    case True
    then show ?thesis
      by (auto simp: Cons_eq_append_conv)
  next
    case False
    have "(\<exists>pre post. x # xs = pre @ item # post \<and> (\<forall>y\<in>set pre. \<not> P y) \<and> P item \<and> idx = k + length pre)
        \<longleftrightarrow> (\<exists>pre post. xs = pre @ item # post \<and> (\<forall>y\<in>set pre. \<not> P y) \<and> P item \<and> idx = Suc k + length pre)"
      (is "?L \<longleftrightarrow> ?R")
    proof
      assume ?L
      then obtain pre post where h: "x # xs = pre @ item # post" "\<forall>y\<in>set pre. \<not> P y" "P item"
        "idx = k + length pre" by blast
      from h False obtain pre' where "pre = x # pre'" by (cases pre) auto
      with h show ?R by auto
    next
      assume ?R
      then obtain pre post where h: "xs = pre @ item # post" "\<forall>y\<in>set pre. \<not> P y" "P item"
        "idx = Suc k + length pre" by blast
      with False have "x # xs = (x # pre) @ item # post \<and> (\<forall>y\<in>set (x # pre). \<not> P y) \<and> P item
         \<and> idx = k + length (x # pre)" by simp
      then show ?L by blast
    qed
    with False Cons.IH[of "Suc k"] show ?thesis by simp
  qed
qed

lemma list_del_split: "list_del (pre @ item # post) (length pre) = pre @ post"
  by (simp add: list_del_def)

subsection \<open>Deleting\<close>

text \<open>
  An entry that the view shows under a subject has a match in the stored list of that
  subject, so the handlers below always find one for an entry clicked in the view. For a
  subject that is not a key the handlers raise.
\<close>

lemma shown_entry_matches:
  assumes "dict_ok (subjects st)" and "map_of (get_user_data st) subject = Some shown"
    and "qa \<in> set shown"
  shows "\<exists>full. map_of (subjects st) subject = Some full
           \<and> (\<exists>item\<in>set full. entry_matches (question qa) (answer qa) (current_user st) item)"
proof -
  let ?own = "\<lambda>qa. created_by qa = current_user st"
  have look: "map_of (get_user_data st) subject =
      (case map_of (subjects st) subject of None \<Rightarrow> None
       | Some qa_list \<Rightarrow> if filter ?own qa_list = [] then None else Some (filter ?own qa_list))"
    using assms(1) by (simp add: get_user_data_eq map_of_filtered dict_ok_def)
  with assms(2) obtain full where f: "map_of (subjects st) subject = Some full"
    "shown = filter ?own full"
    by (auto split: option.splits if_splits)
  with assms(3) have "qa \<in> set full" "created_by qa = current_user st" by auto
  then have "\<exists>item\<in>set full. entry_matches (question qa) (answer qa) (current_user st) item"
    by (auto simp: entry_matches_def)
  with f show ?thesis by blast
qed

lemma view_qa_delete_missing_subject:
  "map_of (subjects st) subject = None \<Longrightarrow> view_qa_delete subject qa st = Inl KeyError"
  by (simp add: view_qa_delete_def)

text \<open>
  C4. When the list stored under the subject holds at least one entry whose question, answer
  and creator equal those of the clicked entry and the current user, the handler removes the
  first such entry and nothing else: the list splits as \<open>pre @ item # post\<close> with no match in
  \<open>pre\<close> and \<open>item\<close> a match, and afterwards the subject holds \<open>pre @ post\<close>, one entry
  shorter, also when later entries are identical to \<open>item\<close>. The other subjects keep their
  lists, the keys keep their order, and the file is rewritten with the new store.
\<close>

theorem delete_removes_first_match:
  assumes "map_of (subjects st) subject = Some qa_list"
    and "\<exists>item\<in>set qa_list. entry_matches (question qa) (answer qa) (current_user st) item"
  shows "\<exists>pre item post st'.
           qa_list = pre @ item # post
         \<and> (\<forall>x\<in>set pre. \<not> entry_matches (question qa) (answer qa) (current_user st) x)
         \<and> entry_matches (question qa) (answer qa) (current_user st) item
         \<and> view_qa_delete subject qa st = Inr st'
         \<and> map_of (subjects st') subject = Some (pre @ post)
         \<and> Suc (length (pre @ post)) = length qa_list
         \<and> (\<forall>s. s \<noteq> subject \<longrightarrow> map_of (subjects st') s = map_of (subjects st) s)
         \<and> map fst (subjects st') = map fst (subjects st)
         \<and> data_file st' = Some (subjects st')"
proof -
  let ?P = "entry_matches (question qa) (answer qa) (current_user st)"
  from assms(2) have "enumerate_find ?P 0 qa_list \<noteq> None"
    by (simp add: enumerate_find_None)
  then obtain idx item where f: "enumerate_find ?P 0 qa_list = Some (idx, item)"
    by (cases "enumerate_find ?P 0 qa_list") auto
  then obtain pre post where sp: "qa_list = pre @ item # post" "\<forall>x\<in>set pre. \<not> ?P x" "?P item"
    "idx = length pre"
    by (auto simp: enumerate_find_Some)
  let ?subjects' = "AList.update subject (pre @ post) (subjects st)"
  let ?st' = "save_data ?subjects' (st\<lparr>subjects := ?subjects'\<rparr>)"
  have res: "view_qa_delete subject qa st = Inr ?st'"
    using assms(1) f sp by (simp add: view_qa_delete_def list_del_split Let_def)
  have "map_of (subjects ?st') subject = Some (pre @ post)"
    by (simp add: save_data_def update_conv')
  moreover have "\<forall>s. s \<noteq> subject \<longrightarrow> map_of (subjects ?st') s = map_of (subjects st) s"
    by (simp add: save_data_def update_conv')
  moreover have "map fst (subjects ?st') = map fst (subjects st)"
    using assms(1) by (simp add: save_data_def update_keys_present)
  moreover have "data_file ?st' = Some (subjects ?st')"
    by (simp add: save_data_def)
  moreover have "Suc (length (pre @ post)) = length qa_list"
    using sp by simp
  ultimately show ?thesis using sp res by blast
qed

theorem delete_removes_first_match_witness:
  "map_of (subjects alice_session) ''Python'' = Some [bob_closure, closure1, recursion1, closure2]
   \<and> entry_matches (question closure2) (answer closure2) (current_user alice_session) closure2
   \<and> (\<exists>st'. view_qa_delete ''Python'' closure2 alice_session = Inr st'
          \<and> map_of (subjects st') ''Python'' = Some [bob_closure, recursion1, closure2]
          \<and> map_of (subjects st') ''Math'' = Some [limit1]
          \<and> data_file st' = Some (subjects st'))"
proof -
  let ?P = "entry_matches (question closure2) (answer closure2) (current_user alice_session)"
  have h1: "map_of (subjects alice_session) ''Python'' =
      Some [bob_closure, closure1, recursion1, closure2]"
    by (simp add: alice_session_def example_store_def)
  have m: "?P closure2"
    by (simp add: entry_matches_def example_defs)
  then have h2: "\<exists>item\<in>set [bob_closure, closure1, recursion1, closure2]. ?P item"
    by simp
  from delete_removes_first_match[OF h1 h2]
  obtain pre item post st' where r0:
    "[bob_closure, closure1, recursion1, closure2] = pre @ item # post
    \<and> (\<forall>x\<in>set pre. \<not> ?P x) \<and> ?P item
    \<and> view_qa_delete ''Python'' closure2 alice_session = Inr st'
    \<and> map_of (subjects st') ''Python'' = Some (pre @ post)
    \<and> Suc (length (pre @ post)) = length [bob_closure, closure1, recursion1, closure2]
    \<and> (\<forall>s. s \<noteq> ''Python'' \<longrightarrow> map_of (subjects st') s = map_of (subjects alice_session) s)
    \<and> map fst (subjects st') = map fst (subjects alice_session)
    \<and> data_file st' = Some (subjects st')"
    by (elim exE) 
  then have r:
    "[bob_closure, closure1, recursion1, closure2] = pre @ item # post"
    "\<forall>x\<in>set pre. \<not> ?P x" "?P item"
    "view_qa_delete ''Python'' closure2 alice_session = Inr st'"
    "map_of (subjects st') ''Python'' = Some (pre @ post)"
    "\<forall>s. s \<noteq> ''Python'' \<longrightarrow> map_of (subjects st') s = map_of (subjects alice_session) s"
    "data_file st' = Some (subjects st')"
    by simp_all
  have nb: "\<not> ?P bob_closure" by (simp add: entry_matches_def example_defs)
  have c1: "?P closure1" by (simp add: entry_matches_def example_defs)
  have "pre = [bob_closure] \<and> post = [recursion1, closure2]"
  proof (cases pre)
    case Nil
    with r(1,3) nb show ?thesis by simp
  next
    case (Cons x pre')
    with r(1) have x: "x = bob_closure" "[closure1, recursion1, closure2] = pre' @ item # post"
      by simp_all
    show ?thesis
    proof (cases pre')
      case Nil
      with x Cons show ?thesis by simp
    next
      case (Cons y pre'')
      with x have "y = closure1" by simp
      with Cons \<open>pre = x # pre'\<close> r(2) c1 show ?thesis by simp
    qed
  qed
  with r(5) have a: "map_of (subjects st') ''Python'' = Some [bob_closure, recursion1, closure2]"
    by simp
  from r(6) have b: "map_of (subjects st') ''Math'' = Some [limit1]"
    by (simp add: alice_session_def example_store_def)
  from h1 m r(4,7) a b show ?thesis by simp
qed

text \<open>
  C9. A delete never removes a subject key: whenever the handler returns, the keys of the
  store are the ones it had, in the same order. In particular, deleting the only entry of a
  subject leaves the subject in the store with the empty list.
\<close>

theorem delete_keeps_subject_keys:
  "(view_qa_delete subject qa st = Inr st' \<longrightarrow> map fst (subjects st') = map fst (subjects st))
   \<and> (map_of (subjects st) subject = Some [item]
        \<and> entry_matches (question qa) (answer qa) (current_user st) item \<longrightarrow>
       (\<exists>st''. view_qa_delete subject qa st = Inr st''
           \<and> map_of (subjects st'') subject = Some []
           \<and> subject \<in> set (map fst (subjects st''))
           \<and> data_file st'' = Some (subjects st'')))"
proof (intro conjI impI)
  assume r: "view_qa_delete subject qa st = Inr st'"
  show "map fst (subjects st') = map fst (subjects st)"
  proof (cases "map_of (subjects st) subject")
    case None
    with r show ?thesis by (simp add: view_qa_delete_def)
  next
    case (Some qa_list)
    show ?thesis
    proof (cases "enumerate_find (entry_matches (question qa) (answer qa) (current_user st)) 0 qa_list")
      case None
      with Some r show ?thesis by (simp add: view_qa_delete_def)
    next
      case found: (Some p)
      obtain idx it where "p = (idx, it)" by (cases p)
      with Some found r have "st' = save_data (AList.update subject (list_del qa_list idx) (subjects st))
          (st\<lparr>subjects := AList.update subject (list_del qa_list idx) (subjects st)\<rparr>)"
        by (simp add: view_qa_delete_def Let_def)
      with Some show ?thesis by (simp add: save_data_def update_keys_present)
    qed
  qed
next
  assume a: "map_of (subjects st) subject = Some [item]
        \<and> entry_matches (question qa) (answer qa) (current_user st) item"
  let ?subjects' = "AList.update subject [] (subjects st)"
  let ?st' = "save_data ?subjects' (st\<lparr>subjects := ?subjects'\<rparr>)"
  have res: "view_qa_delete subject qa st = Inr ?st'"
    using a by (simp add: view_qa_delete_def list_del_def Let_def)
  have keys: "map fst (subjects ?st') = map fst (subjects st)"
    using a by (simp add: save_data_def update_keys_present)
  have "subject \<in> set (map fst (subjects st))"
    using a by (metis domI dom_map_of_conv_image_fst image_set)
  with keys have "subject \<in> set (map fst (subjects ?st'))" by simp
  moreover have "map_of (subjects ?st') subject = Some []"
    by (simp add: save_data_def update_conv')
  moreover have "data_file ?st' = Some (subjects ?st')"
    by (simp add: save_data_def)
  ultimately show "\<exists>st''. view_qa_delete subject qa st = Inr st''
           \<and> map_of (subjects st'') subject = Some []
           \<and> subject \<in> set (map fst (subjects st''))
           \<and> data_file st'' = Some (subjects st'')" using res by blast
qed

theorem delete_keeps_subject_keys_witness:
  "map_of (subjects alice_session) ''Math'' = Some [limit1]
   \<and> entry_matches (question limit1) (answer limit1) (current_user alice_session) limit1
   \<and> (\<exists>st'. view_qa_delete ''Math'' limit1 alice_session = Inr st'
          \<and> map_of (subjects st') ''Math'' = Some []
          \<and> ''Math'' \<in> set (map fst (subjects st'))
          \<and> map fst (subjects st') = [''Python'', ''Math'']
          \<and> data_file st' = Some (subjects st'))"
proof -
  have h1: "map_of (subjects alice_session) ''Math'' = Some [limit1]"
    by (simp add: alice_session_def example_store_def)
  have h2: "entry_matches (question limit1) (answer limit1) (current_user alice_session) limit1"
    by (simp add: entry_matches_def alice_session_def limit1_def)
  have "\<exists>st'. view_qa_delete ''Math'' limit1 alice_session = Inr st'
      \<and> map_of (subjects st') ''Math'' = Some []
      \<and> ''Math'' \<in> set (map fst (subjects st'))
      \<and> data_file st' = Some (subjects st')"
    using delete_keeps_subject_keys[of "''Math''" limit1 alice_session alice_session limit1,
        THEN conjunct2] h1 h2 by simp
  then obtain st' where r: "view_qa_delete ''Math'' limit1 alice_session = Inr st'
      \<and> map_of (subjects st') ''Math'' = Some []
      \<and> ''Math'' \<in> set (map fst (subjects st'))
      \<and> data_file st' = Some (subjects st')"
    by (elim exE)
  with delete_keeps_subject_keys[of "''Math''" limit1 alice_session st' limit1]
  have "map fst (subjects st') = map fst (subjects alice_session)"
    by simp
  then have keys: "map fst (subjects st') = [''Python'', ''Math'']"
    by (simp add: alice_session_def example_store_def)
  note r1 = r[THEN conjunct1] and r2 = r[THEN conjunct2, THEN conjunct1]
    and r3 = r[THEN conjunct2, THEN conjunct2, THEN conjunct1]
    and r4 = r[THEN conjunct2, THEN conjunct2, THEN conjunct2]
  show ?thesis
    by (intro conjI exI[of _ st']) (rule h1 h2 r1 r2 r3 r4 keys)+
qed

subsection \<open>Editing\<close>

lemma save_changes_match:
  assumes "editing st = Some ed"
    and "map_of (subjects st) (ed_subject ed) = Some (pre @ item # post)"
    and "\<forall>x\<in>set pre. \<not> entry_matches (ed_question ed) (ed_answer ed) (current_user st) x"
    and "entry_matches (ed_question ed) (ed_answer ed) (current_user st) item"
  shows "view_qa_save_changes nq na now st =
      Inr (st\<lparr>subjects := AList.update (ed_subject ed)
                 (pre @ item\<lparr>question := nq, answer := na, timestamp := now\<rparr> # post) (subjects st),
              data_file := Some (AList.update (ed_subject ed)
                 (pre @ item\<lparr>question := nq, answer := na, timestamp := now\<rparr> # post) (subjects st)),
              editing := None\<rparr>)"
proof -
  have "enumerate_find (entry_matches (ed_question ed) (ed_answer ed) (current_user st)) 0
          (pre @ item # post) = Some (length pre, item)"
    using assms(3,4) by (auto simp: enumerate_find_Some)
  with assms(1,2) show ?thesis
    by (simp add: view_qa_save_changes_def Let_def save_data_def)
qed

lemma save_changes_no_match:
  assumes "editing st = Some ed"
    and "map_of (subjects st) (ed_subject ed) = Some qa_list"
    and "\<forall>x\<in>set qa_list. \<not> entry_matches (ed_question ed) (ed_answer ed) (current_user st) x"
  shows "view_qa_save_changes nq na now st = Inr (st\<lparr>editing := None\<rparr>)"
proof -
  have "enumerate_find (entry_matches (ed_question ed) (ed_answer ed) (current_user st)) 0
          qa_list = None"
    using assms(3) by (simp add: enumerate_find_None)
  with assms(1,2) show ?thesis
    by (simp add: view_qa_save_changes_def)
qed

lemma edit_stale_hyps:
  "editing alice_stale = Some \<lparr>ed_subject = ''Math'', ed_index = 0,
       ed_question = ''What is a monad?'', ed_answer = ''A monoid of endofunctors''\<rparr>"
  "map_of (subjects alice_stale) ''Math'' = Some [limit1]"
  "\<not> entry_matches ''What is a monad?'' ''A monoid of endofunctors'' (current_user alice_stale) limit1"
  by (simp_all add: alice_stale_def alice_session_def example_store_def entry_matches_def limit1_def)

lemma save_changes_missing_subject:
  "editing st = Some ed \<Longrightarrow> map_of (subjects st) (ed_subject ed) = None \<Longrightarrow>
   view_qa_save_changes nq na now st = Inl KeyError"
  by (simp add: view_qa_save_changes_def)

lemma view_qa_edit_pending:
  assumes "dict_ok (subjects st)" and "map_of (get_user_data st) subject = Some shown"
    and "qa \<in> set shown" and "editing (view_qa_edit subject i qa st) = Some ed"
  shows "\<exists>full. map_of (subjects (view_qa_edit subject i qa st)) (ed_subject ed) = Some full
           \<and> (\<exists>item\<in>set full. entry_matches (ed_question ed) (ed_answer ed)
                  (current_user (view_qa_edit subject i qa st)) item)"
  using shown_entry_matches[OF assms(1,2,3)] assms(4)
  by (auto simp: view_qa_edit_def)

text \<open>
  C5. With an edit pending on a subject of the store, \<^verbatim>\<open>Save Changes\<close> looks through the
  subject's list for the first entry whose question, answer and creator equal the remembered
  question and answer and the current user. If there is none, the store and its file are
  what they were. Otherwise the list \<open>pre @ item # post\<close>, with \<open>item\<close> the first match,
  becomes \<open>pre @ item' # post\<close>, where \<open>item'\<close> is \<open>item\<close> with the new question, the new
  answer and the new timestamp: the entry stays at its position. The other subjects and the
  order of the keys are unchanged and the file is rewritten with the new store.
\<close>

theorem edit_first_match_in_place:
  assumes "editing st = Some ed"
    and "map_of (subjects st) (ed_subject ed) = Some qa_list"
  shows "((\<forall>x\<in>set qa_list. \<not> entry_matches (ed_question ed) (ed_answer ed) (current_user st) x) \<longrightarrow>
            (\<exists>st'. view_qa_save_changes nq na now st = Inr st'
                \<and> subjects st' = subjects st \<and> data_file st' = data_file st))
       \<and> (qa_list = pre @ item # post
            \<and> (\<forall>x\<in>set pre. \<not> entry_matches (ed_question ed) (ed_answer ed) (current_user st) x)
            \<and> entry_matches (ed_question ed) (ed_answer ed) (current_user st) item \<longrightarrow>
            (\<exists>st'. view_qa_save_changes nq na now st = Inr st'
                \<and> map_of (subjects st') (ed_subject ed) =
                    Some (pre @ item\<lparr>question := nq, answer := na, timestamp := now\<rparr> # post)
                \<and> (\<forall>s. s \<noteq> ed_subject ed \<longrightarrow> map_of (subjects st') s = map_of (subjects st) s)
                \<and> map fst (subjects st') = map fst (subjects st)
                \<and> data_file st' = Some (subjects st')))"
proof (intro conjI impI)
  assume "\<forall>x\<in>set qa_list. \<not> entry_matches (ed_question ed) (ed_answer ed) (current_user st) x"
  from save_changes_no_match[OF assms this]
  show "\<exists>st'. view_qa_save_changes nq na now st = Inr st'
          \<and> subjects st' = subjects st \<and> data_file st' = data_file st"
    by simp
next
  assume a: "qa_list = pre @ item # post
            \<and> (\<forall>x\<in>set pre. \<not> entry_matches (ed_question ed) (ed_answer ed) (current_user st) x)
            \<and> entry_matches (ed_question ed) (ed_answer ed) (current_user st) item"
  let ?new = "pre @ item\<lparr>question := nq, answer := na, timestamp := now\<rparr> # post"
  let ?subjects' = "AList.update (ed_subject ed) ?new (subjects st)"
  let ?st' = "st\<lparr>subjects := ?subjects', data_file := Some ?subjects', editing := None\<rparr>"
  from a assms(2) have m: "map_of (subjects st) (ed_subject ed) = Some (pre @ item # post)" by simp
  have res: "view_qa_save_changes nq na now st = Inr ?st'"
    using save_changes_match[OF assms(1) m] a by simp
  have "map_of (subjects ?st') (ed_subject ed) = Some ?new"
    by (simp add: update_conv')
  moreover have "\<forall>s. s \<noteq> ed_subject ed \<longrightarrow> map_of (subjects ?st') s = map_of (subjects st) s"
    by (simp add: update_conv')
  moreover have "map fst (subjects ?st') = map fst (subjects st)"
    using m by (simp add: update_keys_present)
  moreover have "data_file ?st' = Some (subjects ?st')" by simp
  ultimately show "\<exists>st'. view_qa_save_changes nq na now st = Inr st'
                \<and> map_of (subjects st') (ed_subject ed) = Some ?new
                \<and> (\<forall>s. s \<noteq> ed_subject ed \<longrightarrow> map_of (subjects st') s = map_of (subjects st) s)
                \<and> map fst (subjects st') = map fst (subjects st)
                \<and> data_file st' = Some (subjects st')"
    using res by blast
qed

theorem edit_first_match_in_place_witness:
  "editing alice_editing = Some \<lparr>ed_subject = ''Python'', ed_index = 2,
       ed_question = ''What is a closure?'', ed_answer = ''A function with its environment''\<rparr>
   \<and> map_of (subjects alice_editing) ''Python'' = Some [bob_closure, closure1, recursion1, closure2]
   \<and> (\<exists>st'. view_qa_save_changes ''What is a lambda?'' ''An anonymous function''
               ''2024-03-03 10:00:00'' alice_editing = Inr st'
          \<and> map_of (subjects st') ''Python'' =
               Some [bob_closure,
                     closure1\<lparr>question := ''What is a lambda?'', answer := ''An anonymous function'',
                              timestamp := ''2024-03-03 10:00:00''\<rparr>,
                     recursion1, closure2]
          \<and> map fst (subjects st') = [''Python'', ''Math'']
          \<and> data_file st' = Some (subjects st'))
   \<and> (\<exists>st'. view_qa_save_changes ''What is a functor?'' ''A mapping'' ''2024-03-03 10:00:00''
            alice_stale = Inr st'
       \<and> subjects st' = subjects alice_stale \<and> data_file st' = data_file alice_stale)"
proof -
  let ?ed = "\<lparr>ed_subject = ''Python'', ed_index = 2,
       ed_question = ''What is a closure?'', ed_answer = ''A function with its environment''\<rparr>"
  let ?P = "entry_matches (ed_question ?ed) (ed_answer ?ed) (current_user alice_editing)"
  have h1: "editing alice_editing = Some ?ed"
    by (simp add: alice_editing_def)
  have h2: "map_of (subjects alice_editing) (ed_subject ?ed) =
      Some [bob_closure, closure1, recursion1, closure2]"
    by (simp add: alice_editing_def alice_session_def example_store_def)
  have nb: "\<not> ?P bob_closure"
    by (simp add: entry_matches_def alice_editing_def alice_session_def bob_closure_def)
  have c1: "?P closure1"
    by (simp add: entry_matches_def alice_editing_def alice_session_def closure1_def)
  have "[bob_closure, closure1, recursion1, closure2] = [bob_closure] @ closure1 # [recursion1, closure2]
         \<and> (\<forall>x\<in>set [bob_closure]. \<not> ?P x) \<and> ?P closure1"
    using nb c1 by simp
  with edit_first_match_in_place[OF h1 h2, of "''What is a lambda?''" "''An anonymous function''"
      "''2024-03-03 10:00:00''" "[bob_closure]" closure1 "[recursion1, closure2]", THEN conjunct2]
  have "\<exists>st'. view_qa_save_changes ''What is a lambda?'' ''An anonymous function''
               ''2024-03-03 10:00:00'' alice_editing = Inr st'
          \<and> map_of (subjects st') (ed_subject ?ed) =
               Some ([bob_closure] @
                     closure1\<lparr>question := ''What is a lambda?'', answer := ''An anonymous function'',
                              timestamp := ''2024-03-03 10:00:00''\<rparr> # [recursion1, closure2])
          \<and> (\<forall>s. s \<noteq> ed_subject ?ed \<longrightarrow> map_of (subjects st') s = map_of (subjects alice_editing) s)
          \<and> map fst (subjects st') = map fst (subjects alice_editing)
          \<and> data_file st' = Some (subjects st')"
    by (rule mp)
  then obtain st' where r: "view_qa_save_changes ''What is a lambda?'' ''An anonymous function''
               ''2024-03-03 10:00:00'' alice_editing = Inr st'
          \<and> map_of (subjects st') (ed_subject ?ed) =
               Some ([bob_closure] @
                     closure1\<lparr>question := ''What is a lambda?'', answer := ''An anonymous function'',
                              timestamp := ''2024-03-03 10:00:00''\<rparr> # [recursion1, closure2])
          \<and> (\<forall>s. s \<noteq> ed_subject ?ed \<longrightarrow> map_of (subjects st') s = map_of (subjects alice_editing) s)
          \<and> map fst (subjects st') = map fst (subjects alice_editing)
          \<and> data_file st' = Some (subjects st')"
    by (elim exE)
  note r1 = r[THEN conjunct1] and r2 = r[THEN conjunct2, THEN conjunct1]
    and r4 = r[THEN conjunct2, THEN conjunct2, THEN conjunct2, THEN conjunct1]
    and r5 = r[THEN conjunct2, THEN conjunct2, THEN conjunct2, THEN conjunct2]
  from r2 have a: "map_of (subjects st') ''Python'' =
               Some [bob_closure,
                     closure1\<lparr>question := ''What is a lambda?'', answer := ''An anonymous function'',
                              timestamp := ''2024-03-03 10:00:00''\<rparr>,
                     recursion1, closure2]"
    by simp
  from r4 have keys: "map fst (subjects st') = [''Python'', ''Math'']"
    by (simp add: alice_editing_def alice_session_def example_store_def)
  from h2 have h2': "map_of (subjects alice_editing) ''Python'' =
      Some [bob_closure, closure1, recursion1, closure2]" by simp
  let ?ed2 = "\<lparr>ed_subject = ''Math'', ed_index = 0,
       ed_question = ''What is a monad?'', ed_answer = ''A monoid of endofunctors''\<rparr>"
  have s2: "map_of (subjects alice_stale) (ed_subject ?ed2) = Some [limit1]"
    using edit_stale_hyps(2) by simp
  have "\<forall>x\<in>set [limit1]. \<not> entry_matches (ed_question ?ed2) (ed_answer ?ed2) (current_user alice_stale) x"
    using edit_stale_hyps(3) by simp
  with edit_first_match_in_place[OF edit_stale_hyps(1) s2, of "''What is a functor?''" "''A mapping''"
      "''2024-03-03 10:00:00''" "[]" limit1 "[]", THEN conjunct1]
  have stale: "\<exists>st'. view_qa_save_changes ''What is a functor?'' ''A mapping'' ''2024-03-03 10:00:00''
            alice_stale = Inr st'
       \<and> subjects st' = subjects alice_stale \<and> data_file st' = data_file alice_stale"
    by (rule mp)
  show ?thesis
    by (intro conjI exI[of _ st'] stale) (rule h1 h2' r1 a keys r5)+
qed

subsection \<open>What an edit leaves alone\<close>

lemma get_user_data_loop_cong:
  "map (\<lambda>(s, qs). (s, filter (\<lambda>qa. created_by qa = u) qs)) store1 =
   map (\<lambda>(s, qs). (s, filter (\<lambda>qa. created_by qa = u) qs)) store2 \<Longrightarrow>
   get_user_data_loop u store1 acc = get_user_data_loop u store2 acc"
proof (induction store1 arbitrary: store2 acc)
  case Nil
  then show ?case by simp
next
  case (Cons p store1)
  then obtain p2 rest2 where s2: "store2 = p2 # rest2" by (cases store2) auto
  obtain s qs where p: "p = (s, qs)" by (cases p)
  obtain s2 qs2 where p2: "p2 = (s2, qs2)" by (cases p2)
  from Cons.prems s2 p p2 have h: "s2 = s"
    "filter (\<lambda>qa. created_by qa = u) qs2 = filter (\<lambda>qa. created_by qa = u) qs"
    "map (\<lambda>(s, qs). (s, filter (\<lambda>qa. created_by qa = u) qs)) store1 =
     map (\<lambda>(s, qs). (s, filter (\<lambda>qa. created_by qa = u) qs)) rest2"
    by simp_all
  show ?case
    unfolding s2 p p2 using Cons.IH[OF h(3)] h(1,2) by (simp add: Let_def)
qed

lemma update_map_same:
  "map_of al k = Some v \<Longrightarrow> g v' = g v \<Longrightarrow>
   map (\<lambda>(s, x). (s, g x)) (AList.update k v' al) = map (\<lambda>(s, x). (s, g x)) al"
  by (induction al) (auto split: if_splits)

text \<open>
  C10. When \<^verbatim>\<open>Save Changes\<close> finds a match, the new list has the length of the old one and
  differs from it at one index, that of an entry matching the pending edit; there the entry
  is the old one with question, answer and timestamp assigned, so its \<^verbatim>\<open>created_by\<close> is the
  old one. Every other entry of the list, every other subject and the order of the keys
  are unchanged. Hence for every identity other than the editing user, the data visible
  after the edit is the data visible before: an edit moves no entry to another user.
\<close>

theorem edit_frame:
  assumes "editing st = Some ed"
    and "map_of (subjects st) (ed_subject ed) = Some qa_list"
    and "\<exists>x\<in>set qa_list. entry_matches (ed_question ed) (ed_answer ed) (current_user st) x"
  shows "\<exists>st' qa_list' idx.
           view_qa_save_changes nq na now st = Inr st'
         \<and> map_of (subjects st') (ed_subject ed) = Some qa_list'
         \<and> length qa_list' = length qa_list
         \<and> idx < length qa_list
         \<and> entry_matches (ed_question ed) (ed_answer ed) (current_user st) (qa_list ! idx)
         \<and> qa_list' ! idx = (qa_list ! idx)\<lparr>question := nq, answer := na, timestamp := now\<rparr>
         \<and> created_by (qa_list' ! idx) = created_by (qa_list ! idx)
         \<and> (\<forall>j. j < length qa_list \<and> j \<noteq> idx \<longrightarrow> qa_list' ! j = qa_list ! j)
         \<and> (\<forall>s. s \<noteq> ed_subject ed \<longrightarrow> map_of (subjects st') s = map_of (subjects st) s)
         \<and> map fst (subjects st') = map fst (subjects st)
         \<and> (\<forall>v. v \<noteq> current_user st \<longrightarrow>
               get_user_data (st'\<lparr>current_user := v\<rparr>) = get_user_data (st\<lparr>current_user := v\<rparr>))"
proof -
  let ?P = "entry_matches (ed_question ed) (ed_answer ed) (current_user st)"
  from assms(3) have "enumerate_find ?P 0 qa_list \<noteq> None"
    by (simp add: enumerate_find_None)
  then obtain idx item where "enumerate_find ?P 0 qa_list = Some (idx, item)"
    by (cases "enumerate_find ?P 0 qa_list") auto
  then obtain pre post where sp: "qa_list = pre @ item # post" "\<forall>x\<in>set pre. \<not> ?P x" "?P item"
    "idx = length pre"
    by (auto simp: enumerate_find_Some)
  let ?item' = "item\<lparr>question := nq, answer := na, timestamp := now\<rparr>"
  let ?new = "pre @ ?item' # post"
  let ?subjects' = "AList.update (ed_subject ed) ?new (subjects st)"
  let ?st' = "st\<lparr>subjects := ?subjects', data_file := Some ?subjects', editing := None\<rparr>"
  from sp assms(2) have m: "map_of (subjects st) (ed_subject ed) = Some (pre @ item # post)" by simp
  have res: "view_qa_save_changes nq na now st = Inr ?st'"
    using save_changes_match[OF assms(1) m sp(2,3)] .
  have c1: "map_of (subjects ?st') (ed_subject ed) = Some ?new"
    by (simp add: update_conv')
  have c2: "length ?new = length qa_list" using sp by simp
  have c3: "idx < length qa_list" using sp by simp
  have c4: "?P (qa_list ! idx)" using sp by simp
  have c5: "?new ! idx = (qa_list ! idx)\<lparr>question := nq, answer := na, timestamp := now\<rparr>"
    using sp by simp
  have c6: "created_by (?new ! idx) = created_by (qa_list ! idx)"
    using sp by simp
  have c7: "\<forall>j. j < length qa_list \<and> j \<noteq> idx \<longrightarrow> ?new ! j = qa_list ! j"
    using sp by (auto simp: nth_append nth_Cons split: nat.splits)
  have c8: "\<forall>s. s \<noteq> ed_subject ed \<longrightarrow> map_of (subjects ?st') s = map_of (subjects st) s"
    by (simp add: update_conv')
  have c9: "map fst (subjects ?st') = map fst (subjects st)"
    using m by (simp add: update_keys_present)
  have c10: "\<forall>v. v \<noteq> current_user st \<longrightarrow>
               get_user_data (?st'\<lparr>current_user := v\<rparr>) = get_user_data (st\<lparr>current_user := v\<rparr>)"
  proof (intro allI impI)
    fix v assume v: "v \<noteq> current_user st"
    from sp(3) have cb: "created_by item = current_user st" by (simp add: entry_matches_def)
    with v have "filter (\<lambda>qa. created_by qa = v) ?new = filter (\<lambda>qa. created_by qa = v) (pre @ item # post)"
      by auto
    from update_map_same[OF m, of "filter (\<lambda>qa. created_by qa = v)" ?new, OF this]
    have "map (\<lambda>(s, qs). (s, filter (\<lambda>qa. created_by qa = v) qs)) ?subjects' =
          map (\<lambda>(s, qs). (s, filter (\<lambda>qa. created_by qa = v) qs)) (subjects st)" .
    from get_user_data_loop_cong[OF this]
    show "get_user_data (?st'\<lparr>current_user := v\<rparr>) = get_user_data (st\<lparr>current_user := v\<rparr>)"
      by (simp add: get_user_data_def)
  qed
  from res c1 c2 c3 c4 c5 c6 c7 c8 c9 c10 show ?thesis by blast
qed

theorem edit_frame_witness:
  "editing alice_editing = Some \<lparr>ed_subject = ''Python'', ed_index = 2,
       ed_question = ''What is a closure?'', ed_answer = ''A function with its environment''\<rparr>
   \<and> map_of (subjects alice_editing) ''Python'' = Some [bob_closure, closure1, recursion1, closure2]
   \<and> entry_matches ''What is a closure?'' ''A function with its environment''
         (current_user alice_editing) closure1
   \<and> (\<exists>st'. view_qa_save_changes ''What is a lambda?'' ''An anonymous function''
               ''2024-03-03 10:00:00'' alice_editing = Inr st'
          \<and> map_of (subjects st') ''Math'' = Some [limit1]
          \<and> map fst (subjects st') = [''Python'', ''Math'']
          \<and> get_user_data (st'\<lparr>current_user := Some ''bob''\<rparr>) = [(''Python'', [bob_closure])])"
proof -
  let ?ed = "\<lparr>ed_subject = ''Python'', ed_index = 2,
       ed_question = ''What is a closure?'', ed_answer = ''A function with its environment''\<rparr>"
  let ?P = "entry_matches (ed_question ?ed) (ed_answer ?ed) (current_user alice_editing)"
  have h1: "editing alice_editing = Some ?ed"
    by (simp add: alice_editing_def)
  have h2: "map_of (subjects alice_editing) (ed_subject ?ed) =
      Some [bob_closure, closure1, recursion1, closure2]"
    by (simp add: alice_editing_def alice_session_def example_store_def)
  have c1: "?P closure1"
    by (simp add: entry_matches_def alice_editing_def alice_session_def closure1_def)
  then have h3: "\<exists>x\<in>set [bob_closure, closure1, recursion1, closure2]. ?P x"
    by simp
  from edit_frame[OF h1 h2 h3, of "''What is a lambda?''" "''An anonymous function''"
      "''2024-03-03 10:00:00''"]
  obtain st' qa_list' idx where r:
       "view_qa_save_changes ''What is a lambda?'' ''An anonymous function''
           ''2024-03-03 10:00:00'' alice_editing = Inr st'
         \<and> map_of (subjects st') (ed_subject ?ed) = Some qa_list'
         \<and> length qa_list' = length [bob_closure, closure1, recursion1, closure2]
         \<and> idx < length [bob_closure, closure1, recursion1, closure2]
         \<and> ?P ([bob_closure, closure1, recursion1, closure2] ! idx)
         \<and> qa_list' ! idx = ([bob_closure, closure1, recursion1, closure2] ! idx)
               \<lparr>question := ''What is a lambda?'', answer := ''An anonymous function'',
                timestamp := ''2024-03-03 10:00:00''\<rparr>
         \<and> created_by (qa_list' ! idx) = created_by ([bob_closure, closure1, recursion1, closure2] ! idx)
         \<and> (\<forall>j. j < length [bob_closure, closure1, recursion1, closure2] \<and> j \<noteq> idx
               \<longrightarrow> qa_list' ! j = [bob_closure, closure1, recursion1, closure2] ! j)
         \<and> (\<forall>s. s \<noteq> ed_subject ?ed \<longrightarrow> map_of (subjects st') s = map_of (subjects alice_editing) s)
         \<and> map fst (subjects st') = map fst (subjects alice_editing)
         \<and> (\<forall>v. v \<noteq> current_user alice_editing \<longrightarrow>
               get_user_data (st'\<lparr>current_user := v\<rparr>) = get_user_data (alice_editing\<lparr>current_user := v\<rparr>))"
    by (elim exE)
  note r1 = r[THEN conjunct1]
  note rest = r[THEN conjunct2, THEN conjunct2, THEN conjunct2, THEN conjunct2, THEN conjunct2,
      THEN conjunct2, THEN conjunct2, THEN conjunct2]
  note r9 = rest[THEN conjunct1] and r10 = rest[THEN conjunct2, THEN conjunct1]
    and r11 = rest[THEN conjunct2, THEN conjunct2]
  from r9 have a: "map_of (subjects st') ''Math'' = Some [limit1]"
    by (simp add: alice_editing_def alice_session_def example_store_def)
  from r10 have keys: "map fst (subjects st') = [''Python'', ''Math'']"
    by (simp add: alice_editing_def alice_session_def example_store_def)
  have "Some ''bob'' \<noteq> current_user alice_editing"
    by (simp add: alice_editing_def alice_session_def)
  with r11 have "get_user_data (st'\<lparr>current_user := Some ''bob''\<rparr>) =
      get_user_data (alice_editing\<lparr>current_user := Some ''bob''\<rparr>)"
    by blast
  also have "\<dots> = [(''Python'', [bob_closure])]"
    by (simp add: get_user_data_def alice_editing_def alice_session_def example_store_def
        bob_closure_def closure1_def recursion1_def closure2_def limit1_def)
  finally have vis: "get_user_data (st'\<lparr>current_user := Some ''bob''\<rparr>) = [(''Python'', [bob_closure])]" .
  from h2 have h2': "map_of (subjects alice_editing) ''Python'' =
      Some [bob_closure, closure1, recursion1, closure2]" by simp
  from c1 have c1': "entry_matches ''What is a closure?'' ''A function with its environment''
         (current_user alice_editing) closure1" by simp
  show ?thesis
    by (intro conjI exI[of _ st']) (rule h1 h2' c1' r1 a keys vis)+
qed

subsection \<open>Search\<close>

lemma search_entries_append:
  "search_entries lower t subject qa_list results =
     results @ map (\<lambda>qa. \<lparr>Subject = subject, Question = question qa, Answer = answer qa,
                           Date = timestamp qa\<rparr>)
                 (filter (\<lambda>qa. sublist (lower t) (lower (question qa))
                              \<or> sublist (lower t) (lower (answer qa))) qa_list)"
  by (induction qa_list arbitrary: results) auto

lemma search_subjects_append:
  "search_subjects lower t store results =
     results @ concat (map (\<lambda>(subject, qa_list).
        map (\<lambda>qa. \<lparr>Subject = subject, Question = question qa, Answer = answer qa,
                    Date = timestamp qa\<rparr>)
          (filter (\<lambda>qa. sublist (lower t) (lower (question qa))
                       \<or> sublist (lower t) (lower (answer qa))) qa_list)) store)"
proof (induction store arbitrary: results)
  case Nil
  then show ?case by simp
next
  case (Cons p store)
  obtain s qs where "p = (s, qs)" by (cases p)
  with Cons show ?case by (simp add: search_entries_append)
qed

lemma concat_map_nonempty:
  "(\<And>s. g s [] = []) \<Longrightarrow>
   concat (map (\<lambda>(s, qs). g s qs) (filter (\<lambda>(s, qs). qs \<noteq> []) (map (\<lambda>(s, qs). (s, f qs)) store))) =
   concat (map (\<lambda>(s, qs). g s (f qs)) store)"
  by (induction store) auto

text \<open>
  C6. For a logged-in owner and a non-empty term, the search returns one row for each entry
  of the owner whose lower-cased question or lower-cased answer has the lower-cased term as
  a substring, and no other row. The rows come subject by subject, in the order of the
  store, and inside a subject in the order of its list. The term enters only through its
  lower-casing, so two terms with the same lower-casing give the same result, and the texts
  of an entry enter the test only through their lower-casing.
\<close>

theorem search_qa_exact:
  assumes "dict_ok (subjects st)" and "current_user st = Some owner" and "search_term \<noteq> []"
  shows "search_qa lower search_term st =
           Some (concat (map (\<lambda>(subject, qa_list).
                   map (\<lambda>qa. \<lparr>Subject = subject, Question = question qa, Answer = answer qa,
                               Date = timestamp qa\<rparr>)
                     (filter (\<lambda>qa. created_by qa = Some owner
                                \<and> (sublist (lower search_term) (lower (question qa))
                                   \<or> sublist (lower search_term) (lower (answer qa))))
                        qa_list))
                 (subjects st)))
       \<and> (other_term \<noteq> [] \<and> lower other_term = lower search_term \<longrightarrow>
            search_qa lower other_term st = search_qa lower search_term st)"
proof -
  let ?m = "\<lambda>qa. sublist (lower search_term) (lower (question qa))
                 \<or> sublist (lower search_term) (lower (answer qa))"
  let ?row = "\<lambda>subject qa. \<lparr>Subject = subject, Question = question qa, Answer = answer qa,
                               Date = timestamp qa\<rparr>"
  have ud: "get_user_data st = filter (\<lambda>(s, qs). qs \<noteq> [])
       (map (\<lambda>(s, qs). (s, filter (\<lambda>qa. created_by qa = Some owner) qs)) (subjects st))"
    using get_user_data_eq[OF assms(1)] assms(2) by simp
  have "search_subjects lower search_term (get_user_data st) [] =
      concat (map (\<lambda>(s, qs). map (?row s) (filter ?m qs)) (get_user_data st))"
    by (simp add: search_subjects_append)
  also have "\<dots> = concat (map (\<lambda>(s, qs). map (?row s) (filter ?m (filter (\<lambda>qa. created_by qa = Some owner) qs)))
                        (subjects st))"
    unfolding ud
    by (rule concat_map_nonempty[where g = "\<lambda>s qs. map (?row s) (filter ?m qs)"]) simp
  also have "\<dots> = concat (map (\<lambda>(s, qs). map (?row s)
        (filter (\<lambda>qa. created_by qa = Some owner \<and> ?m qa) qs)) (subjects st))"
    by (simp add: conj_commute)
  finally have main: "search_qa lower search_term st =
      Some (concat (map (\<lambda>(s, qs). map (?row s)
        (filter (\<lambda>qa. created_by qa = Some owner \<and> ?m qa) qs)) (subjects st)))"
    using assms(3) by (simp add: search_qa_def)
  have "other_term \<noteq> [] \<and> lower other_term = lower search_term \<longrightarrow>
            search_qa lower other_term st = search_qa lower search_term st"
    using assms(3) by (simp add: search_qa_def search_subjects_append)
  with main show ?thesis by blast
qed


theorem search_qa_exact_witness:
  "dict_ok (subjects alice_session) \<and> current_user alice_session = Some ''alice''
   \<and> search_qa ascii_lower ''CLOSURE'' alice_session =
        Some [\<lparr>Subject = ''Python'', Question = ''What is a closure?'',
                Answer = ''A function with its environment'', Date = ''2024-01-02 09:00:00''\<rparr>,
              \<lparr>Subject = ''Python'', Question = ''What is a closure?'',
                Answer = ''A function with its environment'', Date = ''2024-01-04 09:00:00''\<rparr>]
   \<and> search_qa ascii_lower ''closure'' alice_session =
        search_qa ascii_lower ''CLOSURE'' alice_session"
proof -
  have ok: "dict_ok (subjects alice_session)"
    by (simp add: dict_ok_def alice_session_def example_store_def)
  have user: "current_user alice_session = Some ''alice''"
    by (simp add: alice_session_def)
  have ne: "''CLOSURE'' \<noteq> []" by simp
  note fact = search_qa_exact[OF ok user ne, of ascii_lower "''closure''"]
  have low: "ascii_lower ''CLOSURE'' = ''closure''" "ascii_lower ''closure'' = ''closure''"
    by (simp_all add: ascii_lower_def)
  have m: "sublist ''closure'' (ascii_lower (question closure1))"
          "sublist ''closure'' (ascii_lower (question closure2))"
          "\<not> sublist ''closure'' (ascii_lower (question recursion1))"
          "\<not> sublist ''closure'' (ascii_lower (answer recursion1))"
          "\<not> sublist ''closure'' (ascii_lower (question limit1))"
          "\<not> sublist ''closure'' (ascii_lower (answer limit1))"
    by (simp_all add: ascii_lower_def sublist_code closure1_def closure2_def recursion1_def
        limit1_def)
  have cb: "created_by bob_closure \<noteq> Some ''alice''" "created_by closure1 = Some ''alice''"
     "created_by closure2 = Some ''alice''"
    by (simp_all add: bob_closure_def closure1_def closure2_def)
  from fact[THEN conjunct1] have a: "search_qa ascii_lower ''CLOSURE'' alice_session =
        Some [\<lparr>Subject = ''Python'', Question = question closure1,
                Answer = answer closure1, Date = timestamp closure1\<rparr>,
              \<lparr>Subject = ''Python'', Question = question closure2,
                Answer = answer closure2, Date = timestamp closure2\<rparr>]"
    by (simp add: low m cb alice_session_def example_store_def)
  then have a': "search_qa ascii_lower ''CLOSURE'' alice_session =
        Some [\<lparr>Subject = ''Python'', Question = ''What is a closure?'',
                Answer = ''A function with its environment'', Date = ''2024-01-02 09:00:00''\<rparr>,
              \<lparr>Subject = ''Python'', Question = ''What is a closure?'',
                Answer = ''A function with its environment'', Date = ''2024-01-04 09:00:00''\<rparr>]"
    by (simp add: closure1_def closure2_def)
  from fact[THEN conjunct2] low have b: "search_qa ascii_lower ''closure'' alice_session =
        search_qa ascii_lower ''CLOSURE'' alice_session"
    by simp
  show ?thesis
    by (intro conjI) (rule ok user a' b)+
qed

subsection \<open>Export\<close>








lemma selected_entries_user_data:
  assumes "dict_ok (subjects st)"
  shows "selected_entries (get_user_data st) subject =
           filter (\<lambda>qa. created_by qa = current_user st) (selected_entries (subjects st) subject)"
proof -
  let ?own = "\<lambda>qa. created_by qa = current_user st"
  have "map_of (get_user_data st) subject =
      (case map_of (subjects st) subject of None \<Rightarrow> None
       | Some qa_list \<Rightarrow> if filter ?own qa_list = [] then None else Some (filter ?own qa_list))"
    using assms by (simp add: get_user_data_eq map_of_filtered dict_ok_def)
  then show ?thesis
    by (simp add: selected_entries_def split: option.splits)
qed



subsection \<open>The JSON export read back\<close>

text \<open>
  The encoder and the decoder on concrete values and texts: the escapes of a string, empty
  and nested containers, a repeated key, and texts that the decoder rejects (a trailing
  comma, extra data, an unterminated string, a raw control character).
\<close>

lemma json_dumps_example:
  "json_dumps (PyList [PyList [], PyDict [], PyList [PyNone, PyBool True, PyBool False, PyStr ([CHR 0x08] @ [CHR 0x0C] @ [CHR 0x0D] @ ''/'')], PyStr (''caf'' @ [CHR 0xE9] @ '' '' @ [CHR 0x7F] @ '' '' @ [CHR 0x01] @ '' '' @ [CHR 0x22] @ ''q'' @ [CHR 0x22] @ '' '' @ [CHR 0x5C])]) =
     ''['' @ [CHR 0x0A] @ ''    [],'' @ [CHR 0x0A] @ ''    {},'' @ [CHR 0x0A] @ ''    ['' @ [CHR 0x0A] @ ''        null,'' @ [CHR 0x0A] @ ''        true,'' @ [CHR 0x0A] @ ''        false,'' @ [CHR 0x0A] @ ''        '' @ [CHR 0x22] @ [CHR 0x5C] @ ''b'' @ [CHR 0x5C] @ ''f'' @ [CHR 0x5C] @ ''r/'' @ [CHR 0x22] @ [CHR 0x0A] @ ''    ],'' @ [CHR 0x0A] @ ''    '' @ [CHR 0x22] @ ''caf'' @ [CHR 0x5C] @ ''u00e9 '' @ [CHR 0x5C] @ ''u007f '' @ [CHR 0x5C] @ ''u0001 '' @ [CHR 0x5C] @ [CHR 0x22] @ ''q'' @ [CHR 0x5C] @ [CHR 0x22] @ '' '' @ [CHR 0x5C] @ [CHR 0x5C] @ [CHR 0x22] @ [CHR 0x0A] @ '']''"
  by code_simp

lemma json_loads_dup:
  "json_loads 10 (''{'' @ [CHR 0x22] @ ''a'' @ [CHR 0x22] @ '':'' @ [CHR 0x22] @ ''b'' @ [CHR 0x22] @ '' , '' @ [CHR 0x22] @ ''a'' @ [CHR 0x22] @ '' : null, '' @ [CHR 0x22] @ ''c'' @ [CHR 0x22] @ '':[]}  '') = Some (PyDict [(''a'', PyNone), (''c'', PyList [])])"
  by code_simp

lemma json_loads_esc:
  "json_loads 10 (''['' @ [CHR 0x22] @ [CHR 0x5C] @ ''u00e9'' @ [CHR 0x5C] @ ''u0041'' @ [CHR 0x5C] @ ''/'' @ [CHR 0x22] @ '']'') = Some (PyList [PyStr ([CHR 0xE9] @ ''A/'')])"
  by code_simp

lemma json_loads_trailing_comma:
  "json_loads 10 (''{'' @ [CHR 0x22] @ ''a'' @ [CHR 0x22] @ '':'' @ [CHR 0x22] @ ''b'' @ [CHR 0x22] @ '',}'') = None"
  by code_simp

lemma json_loads_extra_data:
  "json_loads 10 (''[null,true,false ,[ ], { }]x'') = None"
  by code_simp

lemma json_loads_unterminated:
  "json_loads 10 ([CHR 0x22] @ ''abc'') = None"
  by code_simp

lemma json_loads_control:
  "json_loads 10 ([CHR 0x22] @ [CHR 0x01] @ [CHR 0x22]) = None"
  by code_simp




















lemma encode_string_start: "\<exists>t. py_encode_basestring_ascii s = DQ # t"
  by (simp add: py_encode_basestring_ascii_def)









lemma dict_item_text:
  "py_encode_basestring_ascii (fst kv) @ '': '' @ iterencode (Suc level) (snd kv) =
     DQ # dict_item_body level kv"
  by (simp add: dict_item_body_def py_encode_basestring_ascii_def)
























end
